theory Spec2Isabelle
  imports Complex_Main
begin

section \<open>The equalizer of virtual\_oss (equalizer.c)\<close>

text \<open>
  The filter designer of \<^verbatim>\<open>equalizer.c\<close>: a configuration text of
  \<^verbatim>\<open><frequency> <gain>\<close> pairs is sampled at the bin frequencies
  (\<^verbatim>\<open>LoadFrequencyAmplification\<close>), transformed to the time domain,
  windowed and reindexed (\<^verbatim>\<open>EqualizerLoad\<close>).

  Conventions of the embedding:
  \<^item> a C \<^verbatim>\<open>double\<close> is a \<^typ>\<open>real\<close>: a finite number; infinities and NaN are
    not represented. The sampler decides what it scans by comparing rounded results, so
    its four operations are a parameter (\<open>double_arith\<close>, below) and its theorems hold
    for every rounding; the window, the reindexing and the diagnostic output are stated
    in exact arithmetic;
  \<^item> \<^verbatim>\<open>int block_size\<close> is a \<^typ>\<open>nat\<close> (the buffers are allocated with
    \<^verbatim>\<open>block_size\<close> elements, and \<^verbatim>\<open>/\<close> on it is \<^verbatim>\<open>div\<close>);
  \<^item> the two buffers are lists; an indexed store is a list update, which the theorems
    use inside the buffer only (the C program has undefined behaviour outside it);
  \<^item> a \<^verbatim>\<open>const char *\<close> is the \<^typ>\<open>string\<close> before the terminating NUL, so
    \<^verbatim>\<open>*config == 0\<close> is \<open>config = []\<close> and \<^verbatim>\<open>config += len\<close> is \<open>drop len config\<close>;
  \<^item> \<^verbatim>\<open>sscanf\<close> and the two FFTW plans belong to libraries outside the repository
    and are parameters: a scanner, and the two transform functions stored in the
    \<^verbatim>\<open>Equalizer\<close>;
  \<^item> \<^verbatim>\<open>Message\<close> writes to stderr unless \<^verbatim>\<open>in_background\<close> is set: the
    functions take that flag and return the list of messages written.
\<close>

subsection \<open>Messages\<close>

datatype message =
    Reloading string
  | NonincreasingError
  | ParseErrorMsg
  | BinReport real real real real real
  | SampleReport real real

definition Message :: "bool \<Rightarrow> message \<Rightarrow> message list" where
  "Message in_background m = (if in_background then [] else [m])"

subsection \<open>The window\<close>

definition GetWindow :: "real \<Rightarrow> real" where
  "GetWindow x = 0.5 + 0.5 * cos (pi * x)"

subsection \<open>The Equalizer\<close>

text \<open>
  \<open>forward\<close> is what executing the R2HC plan computes from the time buffer into the
  frequency buffer. \<open>inverse\<close> is what executing the HC2R plan does: FFTW may overwrite
  the input array of such a plan, so it yields the new contents of the input array (the
  frequency buffer) and the output (the time buffer).
\<close>

record Equalizer =
  rate :: real
  block_size :: nat
  fftw_time :: "real list"
  fftw_freq :: "real list"
  forward :: "real list \<Rightarrow> real list"
  inverse :: "real list \<Rightarrow> real list \<times> real list"

subsection \<open>Double arithmetic\<close>

text \<open>
  The operations \<^verbatim>\<open>+\<close>, \<^verbatim>\<open>-\<close>, \<^verbatim>\<open>*\<close> and \<^verbatim>\<open>/\<close> on doubles, as the sampler uses
  them. The machine rounds each result to a double, so \<^verbatim>\<open>rate / block_size * i\<close> need
  not be the exact quotient and product. The operations are parameters: a theorem about
  the sampler holds for every choice of them, the machine's among them. \<open>exact\<close> is the
  arithmetic without rounding; it runs the concrete texts below, on which every result of
  the machine is exact.
\<close>

record double_arith =
  fadd :: "real \<Rightarrow> real \<Rightarrow> real"
  fsub :: "real \<Rightarrow> real \<Rightarrow> real"
  fmul :: "real \<Rightarrow> real \<Rightarrow> real"
  fdiv :: "real \<Rightarrow> real \<Rightarrow> real"

definition exact :: double_arith where
  "exact = \<lparr>fadd = (+), fsub = (-), fmul = (*), fdiv = (/)\<rparr>"

text \<open>
  Three identities of IEEE arithmetic on finite doubles, which no rounding disturbs:
  \<open>x - x\<close> is zero, \<open>x * 0\<close> is zero and \<open>0 + x\<close> is \<open>x\<close>.
\<close>

definition ieee_identities :: "double_arith \<Rightarrow> bool" where
  "ieee_identities ar \<longleftrightarrow>
     (\<forall>x. fsub ar x x = 0) \<and> (\<forall>x. fmul ar x 0 = 0) \<and> (\<forall>x. fadd ar 0 x = x)"

subsection \<open>LoadFrequencyAmplification\<close>

text \<open>
  The scanner stands for \<^verbatim>\<open>sscanf(config, "%lf %lf %n", &next_f, &next_amp, &len) == 2\<close>:
  \<open>Some (f, amp, len)\<close> when both conversions succeed, \<open>None\<close> otherwise.
\<close>

type_synonym scanner = "string \<Rightarrow> (real \<times> real \<times> nat) option"

text \<open>The local variables of \<^verbatim>\<open>LoadFrequencyAmplification\<close>.\<close>

record locals =
  prev_f :: real
  prev_amp :: real
  next_f :: real
  next_amp :: real
  config :: string

definition init_locals :: "string \<Rightarrow> locals" where
  "init_locals cfg =
     \<lparr>prev_f = 0, prev_amp = 1, next_f = 0, next_amp = 1, config = cfg\<rparr>"

text \<open>The assignment \<^verbatim>\<open>if (prev_f == 0.0) prev_amp = next_amp;\<close> that ends the loop body.\<close>

definition first_rule :: "locals \<Rightarrow> locals" where
  "first_rule s = (if prev_f s = 0 then s\<lparr>prev_amp := next_amp s\<rparr> else s)"

text \<open>
  The loop \<^verbatim>\<open>while (f >= next_f)\<close>. It may run forever, so the result is an option:
  \<open>None\<close> when it does not return, \<open>Some (Inl m)\<close> when the function returns 0 after
  the message \<open>m\<close>, \<open>Some (Inr s)\<close> when the loop ends with the locals \<open>s\<close>.
\<close>

partial_function (option) scan_while ::
  "scanner \<Rightarrow> real \<Rightarrow> real \<Rightarrow> locals \<Rightarrow> (message + locals) option" where
  "scan_while sc r f s =
     (if f \<ge> next_f s then
        (let s1 = s\<lparr>prev_f := next_f s, prev_amp := next_amp s\<rparr> in
         if config s1 = [] then
           scan_while sc r f (first_rule (s1\<lparr>next_f := r, next_amp := prev_amp s1\<rparr>))
         else
           (case sc (config s1) of
              Some (nf, na, len) \<Rightarrow>
                (let s2 = s1\<lparr>next_f := nf, next_amp := na,
                              config := drop len (config s1)\<rparr> in
                 if next_f s2 \<le> prev_f s2 then Some (Inl NonincreasingError)
                 else scan_while sc r f (first_rule s2))
            | None \<Rightarrow> Some (Inl ParseErrorMsg)))
      else Some (Inr s))"

text \<open>\<^verbatim>\<open>double f = e->rate / e->block_size * i;\<close>\<close>

definition bin_freq :: "double_arith \<Rightarrow> Equalizer \<Rightarrow> nat \<Rightarrow> real" where
  "bin_freq ar e i = fmul ar (fdiv ar (rate e) (real (block_size e))) (real i)"

text \<open>
  \<^verbatim>\<open>((f - prev_f) / (next_f - prev_f)) * (next_amp - prev_amp) + prev_amp\<close>
\<close>

definition gain :: "double_arith \<Rightarrow> locals \<Rightarrow> real \<Rightarrow> real" where
  "gain ar s f =
     fadd ar
       (fmul ar (fdiv ar (fsub ar f (prev_f s)) (fsub ar (next_f s) (prev_f s)))
          (fsub ar (next_amp s) (prev_amp s)))
       (prev_amp s)"

text \<open>
  The loop \<^verbatim>\<open>for (int i = 0; i <= e->block_size / 2; ++i)\<close>, from \<open>i\<close> on. The result
  is the return value, the Equalizer and the messages written.
\<close>

function lfa_for ::
  "double_arith \<Rightarrow> scanner \<Rightarrow> bool \<Rightarrow> nat \<Rightarrow> locals \<Rightarrow> Equalizer \<Rightarrow>
     (int \<times> Equalizer \<times> message list) option"
  where
  "lfa_for ar sc bg i s e =
     (if i \<le> block_size e div 2 then
        (case scan_while sc (rate e) (bin_freq ar e i) s of
           None \<Rightarrow> None
         | Some (Inl m) \<Rightarrow> Some (0, e, Message bg m)
         | Some (Inr s') \<Rightarrow>
             lfa_for ar sc bg (i + 1) s'
               (e\<lparr>fftw_freq := (fftw_freq e)[i := gain ar s' (bin_freq ar e i)]\<rparr>))
      else Some (1, e, []))"
  by pat_completeness auto
termination
  by (relation "measure (\<lambda>(ar, sc, bg, i, s, e). block_size e div 2 + 1 - i)") auto

definition LoadFrequencyAmplification ::
  "double_arith \<Rightarrow> scanner \<Rightarrow> bool \<Rightarrow> Equalizer \<Rightarrow> string \<Rightarrow>
     (int \<times> Equalizer \<times> message list) option"
  where
  "LoadFrequencyAmplification ar sc bg e cfg = lfa_for ar sc bg 0 (init_locals cfg) e"

subsection \<open>EqualizerLoad\<close>

text \<open>\<^verbatim>\<open>memset(buf, 0, sizeof(double) * n)\<close> on a buffer of doubles.\<close>

definition memset_zero :: "nat \<Rightarrow> real list \<Rightarrow> real list" where
  "memset_zero n xs = replicate (min n (length xs)) 0 @ drop n xs"

definition fftw_execute_inverse :: "Equalizer \<Rightarrow> Equalizer" where
  "fftw_execute_inverse e =
     (let (fr, tm) = inverse e (fftw_freq e) in e\<lparr>fftw_freq := fr, fftw_time := tm\<rparr>)"

definition fftw_execute_forward :: "Equalizer \<Rightarrow> Equalizer" where
  "fftw_execute_forward e = e\<lparr>fftw_freq := forward e (fftw_time e)\<rparr>"

text \<open>\<^verbatim>\<open>for (int i = 0; i < N / 2; ++i)\<close>: multiply by the window and shift.\<close>

definition window_loop :: "nat \<Rightarrow> real list \<Rightarrow> real list" where
  "window_loop N t =
     fold (\<lambda>i t. t[N div 2 + i := t ! i * (GetWindow (real i / real (N div 2)) / real N)])
       [0..<N div 2] t"

text \<open>\<^verbatim>\<open>for (int i = N / 2 - 1; i > 0; --i)\<close>.\<close>

definition mirror_loop :: "nat \<Rightarrow> real list \<Rightarrow> real list" where
  "mirror_loop N t = fold (\<lambda>i t. t[i := t ! (N - i)]) (rev [1..<N div 2]) t"

definition window_and_reindex :: "nat \<Rightarrow> real list \<Rightarrow> real list" where
  "window_and_reindex N t = (mirror_loop N (window_loop N t))[0 := 0]"

text \<open>Lines 138 to 147: the inverse transform, the window and the reindexing.\<close>

definition synthesize :: "Equalizer \<Rightarrow> Equalizer" where
  "synthesize e =
     (let e1 = fftw_execute_inverse e
      in e1\<lparr>fftw_time := window_and_reindex (block_size e1) (fftw_time e1)\<rparr>)"

text \<open>\<^verbatim>\<open>for (int i = 0; i < N; ++i) e->fftw_freq[i] /= (double)N;\<close>\<close>

definition divide_loop :: "nat \<Rightarrow> real list \<Rightarrow> real list" where
  "divide_loop N fr = fold (\<lambda>i fr. fr[i := fr ! i / real N]) [0..<N] fr"

text \<open>The arguments of the two debug messages, for bin \<open>i\<close> and for sample \<open>i\<close>.\<close>

definition bin_report :: "Equalizer \<Rightarrow> real list \<Rightarrow> nat \<Rightarrow> message" where
  "bin_report e requested_freq i =
     (let N = block_size e;
          f = (rate e / real N) * real i;
          a = sqrt ((fftw_freq e ! i)\<^sup>2 +
                (if 0 < i \<and> i < N div 2 then (fftw_freq e ! (N - i))\<^sup>2 else 0)) * real N;
          r = requested_freq ! i
      in BinReport f r a (ln a / ln 10) ((ln (a / r) / ln 10) * 10))"

definition sample_report :: "Equalizer \<Rightarrow> nat \<Rightarrow> message" where
  "sample_report e i = SampleReport (1000 * real i / rate e) (fftw_time e ! i)"

definition debug_output :: "bool \<Rightarrow> Equalizer \<Rightarrow> real list \<Rightarrow> message list" where
  "debug_output bg e requested_freq =
     concat (map (\<lambda>i. Message bg (bin_report e requested_freq i)) [0..<block_size e div 2 + 1]) @
     concat (map (\<lambda>i. Message bg (sample_report e i)) [0..<block_size e])"

text \<open>Lines 149 to 167: the forward transform, the division by \<open>N\<close> and the debug output.\<close>

definition reconstruct_and_report ::
  "bool \<Rightarrow> real list \<Rightarrow> Equalizer \<Rightarrow> Equalizer \<times> message list" where
  "reconstruct_and_report bg requested_freq e =
     (let e1 = fftw_execute_forward e;
          e2 = e1\<lparr>fftw_freq := divide_loop (block_size e1) (fftw_freq e1)\<rparr>
      in (e2, debug_output bg e2 requested_freq))"

definition EqualizerLoad ::
  "double_arith \<Rightarrow> scanner \<Rightarrow> bool \<Rightarrow> Equalizer \<Rightarrow> string \<Rightarrow>
     (int \<times> Equalizer \<times> message list) option"
  where
  "EqualizerLoad ar sc bg e cfg =
     (let N = block_size e;
          e0 = e\<lparr>fftw_freq := memset_zero N (fftw_freq e)\<rparr>;
          out0 = Message bg (Reloading cfg)
      in case LoadFrequencyAmplification ar sc bg e0 cfg of
           None \<Rightarrow> None
         | Some (ok, e1, out1) \<Rightarrow>
             if ok = 0 then Some (0, e1, out0 @ out1)
             else
               (let requested_freq = take N (fftw_freq e1);
                    e2 = synthesize e1;
                    (e3, out2) = reconstruct_and_report bg requested_freq e2
                in Some (1, e3, out0 @ out1 @ out2)))"

subsection \<open>The locals at each bin\<close>

text \<open>
  The locals with which the gain of bin \<open>i + k\<close> is computed, when the \<^verbatim>\<open>for\<close> loop
  has reached bin \<open>i\<close> with the locals \<open>s\<close>: the \<^verbatim>\<open>while\<close> loops of the bins
  \<open>i\<close> to \<open>i + k\<close>, one after the other (the stores into the frequency buffer between
  them do not touch the locals).
\<close>

fun bin_locals ::
  "double_arith \<Rightarrow> scanner \<Rightarrow> Equalizer \<Rightarrow> locals \<Rightarrow> nat \<Rightarrow> nat \<Rightarrow>
     (message + locals) option" where
  "bin_locals ar sc e s i 0 = scan_while sc (rate e) (bin_freq ar e i) s"
| "bin_locals ar sc e s i (Suc k) =
     (case scan_while sc (rate e) (bin_freq ar e i) s of
        Some (Inr s') \<Rightarrow> bin_locals ar sc e s' (Suc i) k
      | r \<Rightarrow> r)"

text \<open>The return value of a call that returns.\<close>

definition retval :: "(int \<times> Equalizer \<times> message list) option \<Rightarrow> int option" where
  "retval res = map_option fst res"

subsection \<open>The breakpoints of a configuration text\<close>

text \<open>
  The sequence of (frequency, gain) pairs that a configuration text denotes: the pairs
  that the scanner reads one after the other until the text is exhausted. The program
  never builds this list; the specification states the sampled gains in its terms. A text
  with a pair that cannot be scanned denotes no sequence.
\<close>

function breakpoints :: "scanner \<Rightarrow> string \<Rightarrow> (real \<times> real) list option" where
  "breakpoints sc cfg =
     (if cfg = [] then Some []
      else
        (case sc cfg of
           None \<Rightarrow> None
         | Some (f, a, len) \<Rightarrow>
             if len = 0 then None
             else map_option ((#) (f, a)) (breakpoints sc (drop len cfg))))"
  by pat_completeness auto
termination
  by (relation "measure (\<lambda>(sc, cfg). length cfg)") auto

subsection \<open>A scanner for decimal numerals\<close>

text \<open>
  \<^verbatim>\<open>sscanf(s, "%lf %lf %n", ...)\<close> on decimal numerals: each \<^verbatim>\<open>%lf\<close> skips white
  space and reads an optional sign, digits with an optional fraction, and an optional
  exponent; the blank in the format skips white space; \<^verbatim>\<open>%n\<close> stores the number of
  characters read so far. The other forms that the C library reads (hexadecimal numerals,
  \<^verbatim>\<open>inf\<close>, \<^verbatim>\<open>nan\<close>) have no place in this scanner. The theorems below hold for
  every scanner; this one runs them on concrete texts.
\<close>

definition isspace :: "char \<Rightarrow> bool" where
  "isspace c \<longleftrightarrow> c \<in> set [CHR '' '', CHR 0x09, CHR 0x0A, CHR 0x0B, CHR 0x0C, CHR 0x0D]"

definition isdigit :: "char \<Rightarrow> bool" where
  "isdigit c \<longleftrightarrow> c \<in> set ''0123456789''"

definition digit_val :: "char \<Rightarrow> nat" where
  "digit_val c = of_char c - 48"

definition decimal :: "string \<Rightarrow> nat" where
  "decimal ds = foldl (\<lambda>n c. 10 * n + digit_val c) 0 ds"

definition scan_sign :: "string \<Rightarrow> bool \<times> string" where
  "scan_sign s =
     (case s of
        c # r \<Rightarrow>
          if c = CHR ''-'' then (True, r) else if c = CHR ''+'' then (False, r) else (False, s)
      | [] \<Rightarrow> (False, s))"

definition scan_fraction :: "string \<Rightarrow> string \<times> string" where
  "scan_fraction s =
     (case s of
        c # r \<Rightarrow> if c = CHR ''.'' then (takeWhile isdigit r, dropWhile isdigit r) else ([], s)
      | [] \<Rightarrow> ([], s))"

definition scan_exponent :: "string \<Rightarrow> int \<times> string" where
  "scan_exponent s =
     (case s of
        c # r \<Rightarrow>
          if c = CHR ''e'' \<or> c = CHR ''E'' then
            (let (neg, r1) = scan_sign r; ds = takeWhile isdigit r1 in
             if ds = [] then (0, s)
             else ((if neg then - int (decimal ds) else int (decimal ds)), dropWhile isdigit r1))
          else (0, s)
      | [] \<Rightarrow> (0, s))"

definition scan_double :: "string \<Rightarrow> (real \<times> string) option" where
  "scan_double s =
     (let (neg, s1) = scan_sign (dropWhile isspace s);
          ip = takeWhile isdigit s1;
          (fp, s2) = scan_fraction (dropWhile isdigit s1)
      in if ip = [] \<and> fp = [] then None
         else
           (let (ex, s3) = scan_exponent s2;
                m = real (decimal ip) + real (decimal fp) / 10 ^ length fp;
                v = (if ex < 0 then m / 10 ^ nat (- ex) else m * 10 ^ nat ex)
            in Some (if neg then - v else v, s3)))"

definition sscanf_lf_lf_n :: scanner where
  "sscanf_lf_lf_n s =
     (case scan_double s of
        None \<Rightarrow> None
      | Some (a, r1) \<Rightarrow>
          (case scan_double (dropWhile isspace r1) of
             None \<Rightarrow> None
           | Some (b, r2) \<Rightarrow> Some (a, b, length s - length (dropWhile isspace r2))))"

subsection \<open>The transforms\<close>

text \<open>
  Modelled from the spec: the inverse real transform of section 4.3, which the program
  takes from the FFTW library (plan kind \<^verbatim>\<open>FFTW_HC2R\<close>); the code of the library is
  not part of the repository. The input is in half-complex layout: index \<open>k\<close> holds the cosine coefficient of bin
  \<open>k\<close>, and for \<open>0 < k < n/2\<close> index \<open>n - k\<close> holds the paired sine coefficient. The
  output is the unnormalised inverse transform of the Hermitian spectrum so described.
\<close>

definition hc2r :: "nat \<Rightarrow> real list \<Rightarrow> real list" where
  "hc2r n h =
     map (\<lambda>j. h ! 0 +
            (\<Sum>k = 1..<(n + 1) div 2.
               2 * (h ! k * cos (2 * pi * real j * real k / real n) -
                    h ! (n - k) * sin (2 * pi * real j * real k / real n))) +
            (if even n then h ! (n div 2) * cos (pi * real j) else 0))
       [0..<n]"

text \<open>
  Modelled from the spec: the forward real transform of section 4.3 (FFTW's plan kind
  \<^verbatim>\<open>FFTW_R2HC\<close>, from the same library), with its output in the same half-complex
  layout.
\<close>

definition r2hc :: "nat \<Rightarrow> real list \<Rightarrow> real list" where
  "r2hc n x =
     map (\<lambda>k. if k \<le> n div 2
            then (\<Sum>j<n. x ! j * cos (2 * pi * real j * real k / real n))
            else - (\<Sum>j<n. x ! j * sin (2 * pi * real j * real (n - k) / real n)))
       [0..<n]"

text \<open>The plans of an Equalizer write as many elements as the buffers hold.\<close>

definition plans_ok :: "Equalizer \<Rightarrow> bool" where
  "plans_ok e \<longleftrightarrow>
     (\<forall>xs. length xs = block_size e \<longrightarrow>
        length (forward e xs) = block_size e \<and> length (snd (inverse e xs)) = block_size e)"

text \<open>
  An Equalizer as \<^verbatim>\<open>EqualizerInit(&e, 48000.0, 4)\<close> sets it up, with some contents in the
  two buffers.
\<close>

definition example_eq :: Equalizer where
  "example_eq =
     \<lparr>rate = 48000, block_size = 4, fftw_time = [0, 1, 2, 1], fftw_freq = [1, 1, 1, 1],
      forward = r2hc 4, inverse = (\<lambda>h. (h, hc2r 4 h))\<rparr>"

subsection \<open>Two descriptions of the locals\<close>



section \<open>Properties\<close>

subsection \<open>The while loop\<close>

lemma first_rule_simps [simp]:
  "next_f (first_rule s) = next_f s"
  "next_amp (first_rule s) = next_amp s"
  "prev_f (first_rule s) = prev_f s"
  "config (first_rule s) = config s"
  by (simp_all add: first_rule_def)

lemma scan_while_exit: "f < next_f s \<Longrightarrow> scan_while sc r f s = Some (Inr s)"
  by (subst scan_while.simps) simp

lemma scan_while_empty:
  "next_f s \<le> f \<Longrightarrow> config s = [] \<Longrightarrow>
   scan_while sc r f s =
   scan_while sc r f
     (first_rule (s\<lparr>prev_f := next_f s, prev_amp := next_amp s, next_f := r\<rparr>))"
  by (subst scan_while.simps) (simp add: Let_def)


lemma scan_while_noninc:
  "next_f s \<le> f \<Longrightarrow> config s \<noteq> [] \<Longrightarrow> sc (config s) = Some (nf, na, len) \<Longrightarrow>
   nf \<le> next_f s \<Longrightarrow> scan_while sc r f s = Some (Inl NonincreasingError)"
  by (subst scan_while.simps) (simp add: Let_def)

lemma scan_while_next:
  "next_f s \<le> f \<Longrightarrow> config s \<noteq> [] \<Longrightarrow> sc (config s) = Some (nf, na, len) \<Longrightarrow>
   next_f s < nf \<Longrightarrow>
   scan_while sc r f s =
   scan_while sc r f
     (first_rule (s\<lparr>prev_f := next_f s, prev_amp := next_amp s, next_f := nf,
                     next_amp := na, config := drop len (config s)\<rparr>))"
  by (subst scan_while.simps) (simp add: Let_def)




text \<open>Without a positive rate the loop of an exhausted text never ends.\<close>

lemma scan_while_returns_not_exhausted:
  "scan_while sc r f s = Some y \<Longrightarrow> \<not> (config s = [] \<and> next_f s \<le> f \<and> r \<le> f)"
  by (erule scan_while.raw_induct[rotated])
     (auto simp: Let_def split: if_splits; force)

lemma scan_while_exhausted_diverges:
  assumes "config s = []" and "next_f s \<le> f" and "r \<le> f"
  shows "scan_while sc r f s = None"
proof (rule ccontr)
  assume "scan_while sc r f s \<noteq> None"
  then obtain y where "scan_while sc r f s = Some y" by auto
  from scan_while_returns_not_exhausted[OF this] assms show False by simp
qed



text \<open>When the loop ends, the bin frequency lies below the next frequency, and the
  previous frequency lies below the next one.\<close>

lemma scan_while_gap:
  "scan_while sc r f s = Some y \<Longrightarrow>
   \<forall>s'. y = Inr s' \<longrightarrow> (next_f s \<le> f \<or> prev_f s < next_f s) \<longrightarrow>
     prev_f s' < next_f s' \<and> f < next_f s'"
  by (erule scan_while.raw_induct[rotated])
     (auto simp: Let_def split: if_splits option.splits; force)


text \<open>The rounds at bin 0: the first pair of a text, and the empty text.\<close>

lemma scan_while_first:
  assumes "cfg \<noteq> []" and "sc cfg = Some (f1, a1, l1)" and "0 < f1"
  shows "scan_while sc r 0 (init_locals cfg) =
    Some (Inr \<lparr>prev_f = 0, prev_amp = a1, next_f = f1, next_amp = a1, config = drop l1 cfg\<rparr>)"
proof -
  have "scan_while sc r 0 (init_locals cfg) =
      scan_while sc r 0
        \<lparr>prev_f = 0, prev_amp = a1, next_f = f1, next_amp = a1, config = drop l1 cfg\<rparr>"
    using assms
    by (subst scan_while_next[where nf = f1 and na = a1 and len = l1])
       (simp_all add: init_locals_def first_rule_def)
  then show ?thesis using assms(3) by (simp add: scan_while_exit)
qed

lemma scan_while_flat:
  assumes "0 < r"
  shows "scan_while sc r 0 (init_locals []) =
    Some (Inr \<lparr>prev_f = 0, prev_amp = 1, next_f = r, next_amp = 1, config = []\<rparr>)"
proof -
  have "scan_while sc r 0 (init_locals []) =
      scan_while sc r 0 \<lparr>prev_f = 0, prev_amp = 1, next_f = r, next_amp = 1, config = []\<rparr>"
    by (subst scan_while_empty) (simp_all add: init_locals_def first_rule_def)
  then show ?thesis using assms by (simp add: scan_while_exit)
qed


subsection \<open>The for loop\<close>

declare lfa_for.simps [simp del]

lemma bin_freq_exact: "bin_freq exact e i = rate e / real (block_size e) * real i"
  by (simp add: bin_freq_def exact_def)

lemma bin_freq_le_half:
  assumes "0 < rate e" "0 < block_size e" "i \<le> block_size e div 2"
  shows "bin_freq exact e i \<le> rate e / 2"
proof -
  have "real i \<le> real (block_size e) / 2"
    using assms(3) by linarith
  then have "rate e / real (block_size e) * real i \<le> rate e / real (block_size e) * (real (block_size e) / 2)"
    using assms(1,2) by (intro mult_left_mono) simp_all
  also have "\<dots> = rate e / 2" using assms(2) by simp
  finally show ?thesis by (simp add: bin_freq_exact)
qed

lemma bin_freq_half:
  assumes "0 < block_size e" "even (block_size e)"
  shows "bin_freq exact e (block_size e div 2) = rate e / 2"
proof -
  have h: "real (block_size e div 2) = real (block_size e) / 2"
    using assms(2) by (simp add: real_of_nat_div)
  show ?thesis unfolding bin_freq_exact h using assms(1) by simp
qed

lemma bin_freq_upd [simp]: "bin_freq ar (e\<lparr>fftw_freq := x\<rparr>) i = bin_freq ar e i"
  by (simp add: bin_freq_def)

text \<open>The identities give the frequency of bin 0 and the gain between equal amplitudes.\<close>

lemma exact_identities [simp]: "ieee_identities exact"
  by (simp add: ieee_identities_def exact_def)

lemma bin_freq_0: "ieee_identities ar \<Longrightarrow> bin_freq ar e 0 = 0"
  by (simp add: bin_freq_def ieee_identities_def)

lemma gain_flat:
  "ieee_identities ar \<Longrightarrow> next_amp s = prev_amp s \<Longrightarrow> gain ar s f = prev_amp s"
  by (simp add: gain_def ieee_identities_def)

lemma lfa_for_done:
  "block_size e div 2 < i \<Longrightarrow> lfa_for ar sc bg i s e = Some (1, e, [])"
  by (simp add: lfa_for.simps[of ar sc bg i s e])

lemma lfa_for_fail:
  "i \<le> block_size e div 2 \<Longrightarrow> scan_while sc (rate e) (bin_freq ar e i) s = Some (Inl m) \<Longrightarrow>
   lfa_for ar sc bg i s e = Some (0, e, Message bg m)"
  by (simp add: lfa_for.simps[of ar sc bg i s e])

lemma lfa_for_step:
  "i \<le> block_size e div 2 \<Longrightarrow> scan_while sc (rate e) (bin_freq ar e i) s = Some (Inr s') \<Longrightarrow>
   lfa_for ar sc bg i s e =
   lfa_for ar sc bg (i + 1) s' (e\<lparr>fftw_freq := (fftw_freq e)[i := gain ar s' (bin_freq ar e i)]\<rparr>)"
  by (simp add: lfa_for.simps[of ar sc bg i s e])

lemma lfa_for_diverge:
  "i \<le> block_size e div 2 \<Longrightarrow> scan_while sc (rate e) (bin_freq ar e i) s = None \<Longrightarrow>
   lfa_for ar sc bg i s e = None"
  by (simp add: lfa_for.simps[of ar sc bg i s e])


text \<open>The loop changes the frequency buffer only, and there only the bins from \<open>i\<close> to
  \<open>N/2\<close>.\<close>

lemma lfa_for_frame:
  "lfa_for ar sc bg i s e = Some (r, e', out) \<Longrightarrow>
   e' = e\<lparr>fftw_freq := fftw_freq e'\<rparr> \<and> length (fftw_freq e') = length (fftw_freq e) \<and>
   (\<forall>j<i. fftw_freq e' ! j = fftw_freq e ! j) \<and>
   (\<forall>j>block_size e div 2. fftw_freq e' ! j = fftw_freq e ! j)"
proof (induction ar sc bg i s e rule: lfa_for.induct)
  case (1 ar sc bg i s e)
  show ?case
  proof (cases "i \<le> block_size e div 2")
    case False
    with "1.prems" show ?thesis by (simp add: lfa_for.simps[of ar sc bg i s e])
  next
    case True
    show ?thesis
    proof (cases "scan_while sc (rate e) (bin_freq ar e i) s")
      case None
      with True "1.prems" show ?thesis by (simp add: lfa_for.simps[of ar sc bg i s e])
    next
      case (Some x)
      show ?thesis
      proof (cases x)
        case (Inl m)
        with Some True "1.prems" show ?thesis by (simp add: lfa_for.simps[of ar sc bg i s e])
      next
        case (Inr s')
        let ?e1 = "e\<lparr>fftw_freq := (fftw_freq e)[i := gain ar s' (bin_freq ar e i)]\<rparr>"
        have run: "lfa_for ar sc bg (i + 1) s' ?e1 = Some (r, e', out)"
          using Some Inr True "1.prems" by (simp add: lfa_for.simps[of ar sc bg i s e])
        from "1.IH"[OF True Some Inr run]
        have ih: "e' = ?e1\<lparr>fftw_freq := fftw_freq e'\<rparr>"
          "length (fftw_freq e') = length (fftw_freq ?e1)"
          "\<forall>j<i + 1. fftw_freq e' ! j = fftw_freq ?e1 ! j"
          "\<forall>j>block_size ?e1 div 2. fftw_freq e' ! j = fftw_freq ?e1 ! j"
          by blast+
        have a: "e' = e\<lparr>fftw_freq := fftw_freq e'\<rparr>"
          using ih(1) by (metis Equalizer.update_convs(4) Equalizer.surjective Equalizer.simps)
        show ?thesis using a ih(2,3,4) True by auto
      qed
    qed
  qed
qed

lemma lfa_for_fields:
  assumes "lfa_for ar sc bg i s e = Some (r, e', out)"
  shows "rate e' = rate e" "block_size e' = block_size e" "fftw_time e' = fftw_time e"
    "forward e' = forward e" "inverse e' = inverse e"
    "length (fftw_freq e') = length (fftw_freq e)"
proof -
  have eq: "e' = e\<lparr>fftw_freq := fftw_freq e'\<rparr>" and len: "length (fftw_freq e') = length (fftw_freq e)"
    using lfa_for_frame[OF assms] by blast+
  show "rate e' = rate e" by (subst eq) simp
  show "block_size e' = block_size e" by (subst eq) simp
  show "fftw_time e' = fftw_time e" by (subst eq) simp
  show "forward e' = forward e" by (subst eq) simp
  show "inverse e' = inverse e" by (subst eq) simp
  show "length (fftw_freq e') = length (fftw_freq e)" by (rule len)
qed

lemma lfa_for_retval:
  "lfa_for ar sc bg i s e = Some (r, e', out) \<Longrightarrow> r = 0 \<or> r = 1"
proof (induction ar sc bg i s e rule: lfa_for.induct)
  case (1 ar sc bg i s e)
  show ?case
  proof (cases "i \<le> block_size e div 2")
    case False
    then show ?thesis using "1.prems" by (simp add: lfa_for_done)
  next
    case le: True
    show ?thesis
    proof (cases "scan_while sc (rate e) (bin_freq ar e i) s")
      case None
      with le "1.prems" show ?thesis by (simp add: lfa_for_diverge)
    next
      case (Some x)
      show ?thesis
      proof (cases x)
        case (Inl m)
        with Some le "1.prems" show ?thesis by (simp add: lfa_for_fail)
      next
        case (Inr s')
        with Some le "1.prems" "1.IH"[OF le Some Inr] show ?thesis
          by (simp add: lfa_for_step)
      qed
    qed
  qed
qed







text \<open>
  On the empty text the loop of bin 0 never ends when the rate is at most the frequency
  of bin 0, which is zero.
\<close>

lemma flat_diverges:
  assumes "0 \<le> bin_freq ar e 0" and "rate e \<le> bin_freq ar e 0"
  shows "LoadFrequencyAmplification ar sc bg e [] = None"
proof -
  have "scan_while sc (rate e) (bin_freq ar e 0) (init_locals []) = None"
    using assms by (intro scan_while_exhausted_diverges) (simp_all add: init_locals_def)
  then show ?thesis
    by (simp add: LoadFrequencyAmplification_def lfa_for_diverge)
qed

text \<open>The gain stored at a bin is the interpolation with the locals of that bin.\<close>

lemma bin_locals_cong:
  "rate e2 = rate e \<Longrightarrow> block_size e2 = block_size e \<Longrightarrow>
   bin_locals ar sc e2 s i k = bin_locals ar sc e s i k"
  by (induction k arbitrary: s i) (simp_all add: bin_freq_def split: option.splits sum.splits)

lemma lfa_for_bin:
  "lfa_for ar sc bg i s e = Some (1, e', out) \<Longrightarrow> i + k \<le> block_size e div 2 \<Longrightarrow>
   i + k < length (fftw_freq e) \<Longrightarrow>
   \<exists>t. bin_locals ar sc e s i k = Some (Inr t) \<and>
       fftw_freq e' ! (i + k) = gain ar t (bin_freq ar e (i + k))"
proof (induction k arbitrary: i s e)
  case 0
  have le: "i \<le> block_size e div 2" using 0 by simp
  show ?case
  proof (cases "scan_while sc (rate e) (bin_freq ar e i) s")
    case None
    with le 0 show ?thesis by (simp add: lfa_for_diverge)
  next
    case (Some x)
    show ?thesis
    proof (cases x)
      case (Inl m)
      with Some le 0 show ?thesis by (simp add: lfa_for_fail)
    next
      case (Inr s')
      let ?e1 = "e\<lparr>fftw_freq := (fftw_freq e)[i := gain ar s' (bin_freq ar e i)]\<rparr>"
      have run: "lfa_for ar sc bg (i + 1) s' ?e1 = Some (1, e', out)"
        using Some Inr le 0 by (simp add: lfa_for_step)
      have "fftw_freq e' ! i = fftw_freq ?e1 ! i"
        using lfa_for_frame[OF run] by simp
      then show ?thesis using Some Inr 0 by simp
    qed
  qed
next
  case (Suc k)
  have le: "i \<le> block_size e div 2" using Suc.prems by simp
  show ?case
  proof (cases "scan_while sc (rate e) (bin_freq ar e i) s")
    case None
    with le Suc.prems show ?thesis by (simp add: lfa_for_diverge)
  next
    case (Some x)
    show ?thesis
    proof (cases x)
      case (Inl m)
      with Some le Suc.prems show ?thesis by (simp add: lfa_for_fail)
    next
      case (Inr s')
      let ?e1 = "e\<lparr>fftw_freq := (fftw_freq e)[i := gain ar s' (bin_freq ar e i)]\<rparr>"
      have run: "lfa_for ar sc bg (i + 1) s' ?e1 = Some (1, e', out)"
        using Some Inr le Suc.prems by (simp add: lfa_for_step)
      have "\<exists>t. bin_locals ar sc ?e1 s' (i + 1) k = Some (Inr t) \<and>
         fftw_freq e' ! (i + 1 + k) = gain ar t (bin_freq ar ?e1 (i + 1 + k))"
        using Suc.prems by (intro Suc.IH[OF run]) simp_all
      moreover have "bin_locals ar sc ?e1 s' (i + 1) k = bin_locals ar sc e s' (i + 1) k"
        by (rule bin_locals_cong) simp_all
      ultimately show ?thesis using Some Inr by simp
    qed
  qed
qed

lemma bin_locals_gap:
  "bin_locals ar sc e s i k = Some (Inr t) \<Longrightarrow>
   next_f s \<le> bin_freq ar e i \<or> prev_f s < next_f s \<Longrightarrow>
   prev_f t < next_f t \<and> bin_freq ar e (i + k) < next_f t"
proof (induction k arbitrary: s i)
  case 0
  then show ?case using scan_while_gap[of sc "rate e" "bin_freq ar e i" s "Inr t"] by simp
next
  case (Suc k)
  from Suc.prems(1) obtain s' where
    sw: "scan_while sc (rate e) (bin_freq ar e i) s = Some (Inr s')" and
    rest: "bin_locals ar sc e s' (Suc i) k = Some (Inr t)"
    by (auto split: option.splits sum.splits)
  have "prev_f s' < next_f s'"
    using scan_while_gap[OF sw] Suc.prems(2) by simp
  from Suc.IH[OF rest] this show ?case by simp
qed


text \<open>When no bin from \<open>i\<close> on reaches the next frequency, the loop only interpolates.\<close>

lemma lfa_for_no_scan:
  assumes "\<forall>j. i \<le> j \<and> j \<le> block_size e div 2 \<longrightarrow> bin_freq ar e j < next_f t"
  shows "\<exists>e'. lfa_for ar sc bg i t e = Some (1, e', []) \<and>
    (\<forall>j. i \<le> j \<and> j \<le> block_size e div 2 \<and> j < length (fftw_freq e) \<longrightarrow>
       fftw_freq e' ! j = gain ar t (bin_freq ar e j))"
  using assms
proof (induction ar sc bg i t e rule: lfa_for.induct)
  case (1 ar sc bg i t e)
  show ?case
  proof (cases "i \<le> block_size e div 2")
    case False
    then show ?thesis by (simp add: lfa_for_done)
  next
    case le: True
    let ?e1 = "e\<lparr>fftw_freq := (fftw_freq e)[i := gain ar t (bin_freq ar e i)]\<rparr>"
    have sw: "scan_while sc (rate e) (bin_freq ar e i) t = Some (Inr t)"
      using "1.prems" le by (simp add: scan_while_exit)
    have "\<forall>j. i + 1 \<le> j \<and> j \<le> block_size ?e1 div 2 \<longrightarrow> bin_freq ar ?e1 j < next_f t"
      using "1.prems" by simp
    from "1.IH"[OF le sw refl this] obtain e' where
      run: "lfa_for ar sc bg (i + 1) t ?e1 = Some (1, e', [])" and
      val: "\<forall>j. i + 1 \<le> j \<and> j \<le> block_size e div 2 \<and> j < length (fftw_freq e) \<longrightarrow>
              fftw_freq e' ! j = gain ar t (bin_freq ar e j)"
      by auto
    have here: "i < length (fftw_freq e) \<longrightarrow> fftw_freq e' ! i = gain ar t (bin_freq ar e i)"
      using lfa_for_frame[OF run] by simp
    have "fftw_freq e' ! j = gain ar t (bin_freq ar e j)"
      if "i \<le> j" "j \<le> block_size e div 2" "j < length (fftw_freq e)" for j
      using that val here by (cases "j = i") simp_all
    moreover have "lfa_for ar sc bg i t e = Some (1, e', [])"
      using lfa_for_step[OF le sw] run by simp
    ultimately show ?thesis by blast
  qed
qed


text \<open>A pair whose frequency does not increase is rejected at the first bin that reaches
  the frequency before it.\<close>

lemma lfa_for_pending_noninc:
  assumes "config t \<noteq> []" and "sc (config t) = Some (f2, a2, l2)" and "f2 \<le> next_f t"
    and "i \<le> m" and "m \<le> block_size e div 2" and "next_f t \<le> bin_freq ar e m"
  shows "\<exists>e'. lfa_for ar sc bg i t e = Some (0, e', Message bg NonincreasingError)"
  using assms
proof (induction ar sc bg i t e rule: lfa_for.induct)
  case (1 ar sc bg i t e)
  have le: "i \<le> block_size e div 2" using "1.prems" by simp
  show ?case
  proof (cases "next_f t \<le> bin_freq ar e i")
    case True
    then have "scan_while sc (rate e) (bin_freq ar e i) t = Some (Inl NonincreasingError)"
      using "1.prems" by (intro scan_while_noninc[where nf = f2 and na = a2 and len = l2])
    then show ?thesis using le by (simp add: lfa_for_fail)
  next
    case False
    then have sw: "scan_while sc (rate e) (bin_freq ar e i) t = Some (Inr t)"
      by (simp add: scan_while_exit)
    let ?e1 = "e\<lparr>fftw_freq := (fftw_freq e)[i := gain ar t (bin_freq ar e i)]\<rparr>"
    have "i \<noteq> m" using False "1.prems" by auto
    then have "i + 1 \<le> m" using "1.prems" by simp
    then have "\<exists>e'. lfa_for ar sc bg (i + 1) t ?e1 = Some (0, e', Message bg NonincreasingError)"
      using "1.prems" by (intro "1.IH"[OF le sw refl]) simp_all
    then show ?thesis using lfa_for_step[OF le sw] by simp
  qed
qed


subsection \<open>Breakpoints\<close>

declare breakpoints.simps [simp del]

lemma breakpoints_Nil [simp]: "breakpoints sc [] = Some []"
  by (simp add: breakpoints.simps)









subsection \<open>The window and the reindexing\<close>

lemma length_window_loop [simp]: "length (window_loop N t) = length t"
proof -
  have "length (fold (\<lambda>i t. t[N div 2 + i := t ! i * (GetWindow (real i / real (N div 2)) / real N)]) is t) = length t" for "is"
    by (induction "is" arbitrary: t) simp_all
  then show ?thesis by (simp add: window_loop_def)
qed

lemma length_mirror_loop [simp]: "length (mirror_loop N t) = length t"
proof -
  have "length (fold (\<lambda>i t. t[i := t ! (N - i)]) is t) = length t" for "is"
    by (induction "is" arbitrary: t) simp_all
  then show ?thesis by (simp add: mirror_loop_def)
qed

lemma length_window_and_reindex [simp]: "length (window_and_reindex N t) = length t"
  by (simp add: window_and_reindex_def)

lemma length_divide_loop [simp]: "length (divide_loop N fr) = length fr"
proof -
  have "length (fold (\<lambda>i fr. fr[i := fr ! i / real N]) is fr) = length fr" for "is"
    by (induction "is" arbitrary: fr) simp_all
  then show ?thesis by (simp add: divide_loop_def)
qed

lemma synthesize_fields [simp]:
  "rate (synthesize e) = rate e"
  "block_size (synthesize e) = block_size e"
  "forward (synthesize e) = forward e"
  "inverse (synthesize e) = inverse e"
  "fftw_time (synthesize e) = window_and_reindex (block_size e) (snd (inverse e (fftw_freq e)))"
  by (simp_all add: synthesize_def fftw_execute_inverse_def Let_def split_beta)

lemma memset_zero_full: "length xs = n \<Longrightarrow> memset_zero n xs = replicate n 0"
  by (simp add: memset_zero_def)


text \<open>The window loop reads the first half and writes the second half.\<close>

lemma window_fold_nth:
  assumes "\<forall>i\<in>set is. i < M" and "j < length t"
  shows "fold (\<lambda>i t. t[M + i := t ! i * w i]) is t ! j =
    (if M \<le> j \<and> j - M \<in> set is then t ! (j - M) * w (j - M) else t ! j)"
  using assms
proof (induction "is" arbitrary: t)
  case Nil
  then show ?case by simp
next
  case (Cons i "is")
  let ?t1 = "t[M + i := t ! i * w i]"
  have i: "i < M" using Cons.prems(1) by simp
  have ih: "fold (\<lambda>i t. t[M + i := t ! i * w i]) is ?t1 ! j =
    (if M \<le> j \<and> j - M \<in> set is then ?t1 ! (j - M) * w (j - M) else ?t1 ! j)"
    using Cons.prems by (intro Cons.IH) simp_all
  show ?case
  proof (cases "M \<le> j \<and> j - M \<in> set is")
    case True
    then have "j - M < M" using Cons.prems(1) by simp
    then have "?t1 ! (j - M) = t ! (j - M)" by simp
    with True ih show ?thesis by simp
  next
    case False
    show ?thesis
    proof (cases "j = M + i")
      case True
      with False ih Cons.prems(2) show ?thesis by simp
    next
      case ne: False
      then have "\<not> (M \<le> j \<and> j - M = i)" by auto
      with False ih ne show ?thesis by auto
    qed
  qed
qed

lemma window_loop_nth:
  assumes "j < length t"
  shows "window_loop N t ! j =
    (if N div 2 \<le> j \<and> j < N div 2 + N div 2
     then t ! (j - N div 2) * (GetWindow (real (j - N div 2) / real (N div 2)) / real N)
     else t ! j)"
  unfolding window_loop_def
  using window_fold_nth[of "[0..<N div 2]" "N div 2" j t
      "\<lambda>i. GetWindow (real i / real (N div 2)) / real N"] assms
  by auto


text \<open>The mirror loop reads above the indices that it writes.\<close>

lemma mirror_fold_nth:
  assumes "\<forall>i\<in>set is. i < M \<and> M \<le> N - i" and "j < length t"
  shows "fold (\<lambda>i t. t[i := t ! (N - i)]) is t ! j =
    (if j \<in> set is then t ! (N - j) else t ! j)"
  using assms
proof (induction "is" arbitrary: t)
  case Nil
  then show ?case by simp
next
  case (Cons i "is")
  let ?t1 = "t[i := t ! (N - i)]"
  have ih: "fold (\<lambda>i t. t[i := t ! (N - i)]) is ?t1 ! j =
    (if j \<in> set is then ?t1 ! (N - j) else ?t1 ! j)"
    using Cons.prems by (intro Cons.IH) simp_all
  show ?case
  proof (cases "j \<in> set is")
    case True
    then have "i < M" "M \<le> N - j" using Cons.prems(1) by simp_all
    then have "?t1 ! (N - j) = t ! (N - j)" by simp
    with True ih show ?thesis by simp
  next
    case False
    with ih Cons.prems(2) show ?thesis by (cases "j = i") simp_all
  qed
qed

lemma mirror_loop_nth:
  assumes "j < length t" and "2 * (N div 2) \<le> N"
  shows "mirror_loop N t ! j = (if 1 \<le> j \<and> j < N div 2 then t ! (N - j) else t ! j)"
proof -
  have "\<forall>i\<in>set (rev [1..<N div 2]). i < N div 2 \<and> N div 2 \<le> N - i"
    using assms(2) by auto
  from mirror_fold_nth[OF this assms(1)] show ?thesis
    by (simp add: mirror_loop_def)
qed

lemma window_and_reindex_props:
  assumes "0 < N" and "even N" and "length raw = N"
  shows "window_and_reindex N raw ! 0 = 0"
    and "i < N div 2 \<Longrightarrow> window_and_reindex N raw ! (N div 2 + i) =
           raw ! i * (GetWindow (real i / real (N div 2)) / real N)"
    and "1 \<le> i \<Longrightarrow> i < N div 2 \<Longrightarrow>
           window_and_reindex N raw ! i = window_and_reindex N raw ! (N - i)"
proof -
  have N: "N = N div 2 + N div 2" using assms(2) by (auto elim: evenE)
  have M: "0 < N div 2" using assms(1) N by linarith
  have le: "2 * (N div 2) \<le> N" by simp
  show "window_and_reindex N raw ! 0 = 0"
    using assms(1,3) by (simp add: window_and_reindex_def)
  show "window_and_reindex N raw ! (N div 2 + i) =
      raw ! i * (GetWindow (real i / real (N div 2)) / real N)" if "i < N div 2"
  proof -
    have lt: "N div 2 + i < length raw" using that N assms(3) by linarith
    have "window_and_reindex N raw ! (N div 2 + i) = mirror_loop N (window_loop N raw) ! (N div 2 + i)"
      using M by (simp add: window_and_reindex_def)
    also have "\<dots> = window_loop N raw ! (N div 2 + i)"
      using lt le by (simp add: mirror_loop_nth)
    also have "\<dots> = raw ! i * (GetWindow (real i / real (N div 2)) / real N)"
      using lt that by (simp add: window_loop_nth)
    finally show ?thesis .
  qed
  show "window_and_reindex N raw ! i = window_and_reindex N raw ! (N - i)"
    if "1 \<le> i" "i < N div 2"
  proof -
    have lt: "i < length raw" "N - i < length raw" using that N assms(3) by linarith+
    have hi: "N div 2 \<le> N - i" "N - i \<noteq> 0" using that N by linarith+
    have "window_and_reindex N raw ! i = mirror_loop N (window_loop N raw) ! i"
      using that by (simp add: window_and_reindex_def)
    also have "\<dots> = window_loop N raw ! (N - i)"
      using lt le that by (simp add: mirror_loop_nth)
    also have "\<dots> = mirror_loop N (window_loop N raw) ! (N - i)"
      using lt le hi by (simp add: mirror_loop_nth)
    also have "\<dots> = window_and_reindex N raw ! (N - i)"
      using hi by (simp add: window_and_reindex_def)
    finally show ?thesis .
  qed
qed


subsection \<open>The inverse transform of a cosine-only spectrum\<close>

lemma cos_shift_nat: "cos (2 * real k * pi - x) = cos x"
  by (simp add: cos_diff)

lemma hc2r_nth:
  "j < n \<Longrightarrow> hc2r n h ! j =
     h ! 0 +
     (\<Sum>k = 1..<(n + 1) div 2.
        2 * (h ! k * cos (2 * pi * real j * real k / real n) -
             h ! (n - k) * sin (2 * pi * real j * real k / real n))) +
     (if even n then h ! (n div 2) * cos (pi * real j) else 0)"
  by (simp add: hc2r_def)

lemma length_hc2r [simp]: "length (hc2r n h) = n"
  by (simp add: hc2r_def)

lemma length_r2hc [simp]: "length (r2hc n x) = n"
  by (simp add: r2hc_def)

lemma hc2r_cosine_only:
  assumes "even n" and "\<forall>j. n div 2 < j \<and> j < n \<longrightarrow> h ! j = 0" and "j < n"
  shows "hc2r n h ! j =
     h ! 0 + (\<Sum>k = 1..<n div 2. 2 * (h ! k * cos (2 * pi * real j * real k / real n))) +
     h ! (n div 2) * cos (pi * real j)"
proof -
  have n: "n = n div 2 + n div 2" using assms(1) by (auto elim: evenE)
  have "h ! (n - k) = 0" if "k \<in> {1..<n div 2}" for k
  proof -
    have "n div 2 < n - k \<and> n - k < n" using that n by auto
    then show ?thesis using assms(2) by blast
  qed
  then have "(\<Sum>k = 1..<n div 2.
        2 * (h ! k * cos (2 * pi * real j * real k / real n) -
             h ! (n - k) * sin (2 * pi * real j * real k / real n))) =
      (\<Sum>k = 1..<n div 2. 2 * (h ! k * cos (2 * pi * real j * real k / real n)))"
    by (intro sum.cong) simp_all
  moreover have "(n + 1) div 2 = n div 2" using assms(1) by simp
  ultimately show ?thesis using assms(1,3) by (simp add: hc2r_nth)
qed

lemma hc2r_symmetric:
  assumes "even n" and "\<forall>j. n div 2 < j \<and> j < n \<longrightarrow> h ! j = 0" and "0 < i" and "i < n"
  shows "hc2r n h ! i = hc2r n h ! (n - i)"
proof -
  have npos: "0 < n" using assms(3,4) by simp
  have c1: "cos (2 * pi * real (n - i) * real k / real n) = cos (2 * pi * real i * real k / real n)" for k
  proof -
    have "2 * pi * real (n - i) * real k / real n =
        2 * real k * pi - 2 * pi * real i * real k / real n"
      using assms(4) npos by (simp add: of_nat_diff field_simps)
    then show ?thesis by (simp only: cos_shift_nat)
  qed
  have c2: "cos (pi * real (n - i)) = cos (pi * real i)"
  proof -
    have "even (n - i) \<longleftrightarrow> even i" using assms(1,4) by auto
    then have "(- 1 :: real) ^ (n - i) = (- 1) ^ i"
      by (simp add: minus_one_power_iff)
    then show ?thesis by simp
  qed
  have "n - i < n" using assms(3,4) by simp
  then show ?thesis
    using hc2r_cosine_only[OF assms(1,2), of i] hc2r_cosine_only[OF assms(1,2), of "n - i"]
      assms(4) by (simp only: c1 c2)
qed


subsection \<open>EqualizerLoad\<close>

lemma reconstruct_frame:
  "fst (reconstruct_and_report bg req e) =
   e\<lparr>fftw_freq := divide_loop (block_size e) (forward e (fftw_time e))\<rparr>"
  by (simp add: reconstruct_and_report_def fftw_execute_forward_def Let_def)

lemma EqualizerLoad_fail:
  "LoadFrequencyAmplification ar sc bg (e\<lparr>fftw_freq := memset_zero (block_size e) (fftw_freq e)\<rparr>) cfg
     = Some (0, e1, out1) \<Longrightarrow>
   EqualizerLoad ar sc bg e cfg = Some (0, e1, Message bg (Reloading cfg) @ out1)"
  by (simp add: EqualizerLoad_def Let_def)

lemma EqualizerLoad_ok:
  "LoadFrequencyAmplification ar sc bg (e\<lparr>fftw_freq := memset_zero (block_size e) (fftw_freq e)\<rparr>) cfg
     = Some (1, e1, out1) \<Longrightarrow>
   \<exists>out. EqualizerLoad ar sc bg e cfg =
     Some (1, (synthesize e1)\<lparr>fftw_freq :=
                 divide_loop (block_size (synthesize e1))
                   (forward (synthesize e1) (fftw_time (synthesize e1)))\<rparr>, out)"
  by (simp add: EqualizerLoad_def Let_def split_beta reconstruct_frame)


lemma EqualizerLoad_cases:
  assumes "EqualizerLoad ar sc bg e cfg = Some (r, e', out)"
  obtains (fail) out1 where "r = 0"
      "LoadFrequencyAmplification ar sc bg (e\<lparr>fftw_freq := memset_zero (block_size e) (fftw_freq e)\<rparr>) cfg
         = Some (0, e', out1)"
      "out = Message bg (Reloading cfg) @ out1"
    | (ok) e1 out1 where "r = 1"
      "LoadFrequencyAmplification ar sc bg (e\<lparr>fftw_freq := memset_zero (block_size e) (fftw_freq e)\<rparr>) cfg
         = Some (1, e1, out1)"
      "e' = (synthesize e1)\<lparr>fftw_freq :=
                 divide_loop (block_size (synthesize e1))
                   (forward (synthesize e1) (fftw_time (synthesize e1)))\<rparr>"
proof -
  let ?e0 = "e\<lparr>fftw_freq := memset_zero (block_size e) (fftw_freq e)\<rparr>"
  obtain ok e1 out1 where l: "LoadFrequencyAmplification ar sc bg ?e0 cfg = Some (ok, e1, out1)"
    using assms by (auto simp: EqualizerLoad_def Let_def split: option.splits)
  then have "ok = 0 \<or> ok = 1"
    by (auto simp: LoadFrequencyAmplification_def dest: lfa_for_retval)
  then show thesis
  proof
    assume "ok = 0"
    with l assms fail show thesis by (simp add: EqualizerLoad_fail)
  next
    assume "ok = 1"
    with l assms EqualizerLoad_ok[of ar sc bg e cfg e1 out1] ok show thesis by auto
  qed
qed




text \<open>A first frequency that no bin reaches hides the rest of the text, which is not read.\<close>

lemma sample_unreached:
  assumes "ieee_identities ar"
    and "cfg \<noteq> []" and "sc cfg = Some (f1, a1, l1)" and "0 < f1"
    and "\<forall>j\<le>block_size e div 2. bin_freq ar e j < f1"
  shows "\<exists>e1. LoadFrequencyAmplification ar sc bg e cfg = Some (1, e1, [])"
proof -
  let ?t = "\<lparr>prev_f = 0, prev_amp = a1, next_f = f1, next_amp = a1, config = drop l1 cfg\<rparr>"
  have b0: "bin_freq ar e 0 = 0" using assms(1) by (rule bin_freq_0)
  have "\<forall>j. 0 \<le> j \<and> j \<le> block_size e div 2 \<longrightarrow> bin_freq ar e j < next_f ?t"
    using assms(5) by simp
  then obtain e1 where run: "lfa_for ar sc bg 0 ?t e = Some (1, e1, [])"
    using lfa_for_no_scan[of 0 e ar ?t sc bg] by auto
  have sw: "scan_while sc (rate e) (bin_freq ar e 0) (init_locals cfg) = Some (Inr ?t)"
    using scan_while_first[where sc = sc and cfg = cfg, OF assms(2,3,4)] b0 by simp
  have sw': "scan_while sc (rate e) (bin_freq ar e 0) ?t = Some (Inr ?t)"
    using assms(4) b0 by (simp add: scan_while_exit)
  have "lfa_for ar sc bg 0 (init_locals cfg) e = lfa_for ar sc bg 0 ?t e"
    using lfa_for_step[of 0 e sc ar "init_locals cfg" ?t bg, OF _ sw]
      lfa_for_step[of 0 e sc ar ?t ?t bg, OF _ sw'] by simp
  then show ?thesis
    using run by (simp add: LoadFrequencyAmplification_def)
qed

lemma load_unreached:
  assumes "ieee_identities ar"
    and "cfg \<noteq> []" and "sc cfg = Some (f1, a1, l1)" and "0 < f1"
    and "\<forall>j\<le>block_size e div 2. bin_freq ar e j < f1"
  shows "\<exists>e' out. EqualizerLoad ar sc bg e cfg = Some (1, e', out)"
proof -
  let ?e0 = "e\<lparr>fftw_freq := memset_zero (block_size e) (fftw_freq e)\<rparr>"
  have "\<forall>j\<le>block_size ?e0 div 2. bin_freq ar ?e0 j < f1"
    using assms(5) by simp
  from sample_unreached[where sc = sc and cfg = cfg and bg = bg, OF assms(1,2,3,4) this]
  obtain e1 where "LoadFrequencyAmplification ar sc bg ?e0 cfg = Some (1, e1, [])"
    by blast
  from EqualizerLoad_ok[OF this] show ?thesis by blast
qed

text \<open>Without rounding no bin lies above half the rate.\<close>

lemma load_beyond_half_rate:
  assumes "0 < rate e" and "0 < block_size e"
    and "cfg \<noteq> []" and "sc cfg = Some (f1, a1, l1)" and "rate e / 2 < f1"
  shows "\<exists>e' out. EqualizerLoad exact sc bg e cfg = Some (1, e', out)"
proof -
  have pos: "0 < f1" using assms(1,5) by simp
  have "\<forall>j\<le>block_size e div 2. bin_freq exact e j < f1"
  proof (intro allI impI)
    fix j assume "j \<le> block_size e div 2"
    from bin_freq_le_half[OF assms(1,2) this] assms(5) show "bin_freq exact e j < f1" by simp
  qed
  from load_unreached[where sc = sc and cfg = cfg, OF exact_identities assms(3,4) pos this]
  show ?thesis .
qed

text \<open>The first pair of a text, read at a bin whose frequency is not negative.\<close>

lemma scan_while_first_pair:
  assumes "cfg \<noteq> []" and "sc cfg = Some (f1, a1, l1)" and "0 < f1" and "0 \<le> f"
  shows "scan_while sc r f (init_locals cfg) =
    scan_while sc r f
      \<lparr>prev_f = 0, prev_amp = a1, next_f = f1, next_amp = a1, config = drop l1 cfg\<rparr>"
  using assms
  by (subst scan_while_next[where nf = f1 and na = a1 and len = l1])
     (simp_all add: init_locals_def first_rule_def)

lemma lfa_for_same_scan:
  assumes "scan_while sc (rate e) (bin_freq ar e i) s = scan_while sc (rate e) (bin_freq ar e i) t"
  shows "lfa_for ar sc bg i s e = lfa_for ar sc bg i t e"
  by (simp add: lfa_for.simps[of ar sc bg i s e] lfa_for.simps[of ar sc bg i t e] assms)

text \<open>
  The empty text: when every bin frequency lies below the rate, the sampler stores the
  gain 1 at every bin.
\<close>

lemma flat_unity:
  assumes "ieee_identities ar" and "\<forall>j\<le>block_size e div 2. bin_freq ar e j < rate e"
    and "0 < block_size e" and "length (fftw_freq e) = block_size e"
  shows "\<exists>e'. LoadFrequencyAmplification ar sc bg e [] = Some (1, e', []) \<and>
    (\<forall>i\<le>block_size e div 2. fftw_freq e' ! i = 1)"
proof -
  let ?t = "\<lparr>prev_f = 0, prev_amp = 1, next_f = rate e, next_amp = 1, config = []\<rparr>"
  have b0: "bin_freq ar e 0 = 0" using assms(1) by (rule bin_freq_0)
  have pos: "0 < rate e" using assms(2) b0 by (metis le0)
  have "\<forall>j. 0 \<le> j \<and> j \<le> block_size e div 2 \<longrightarrow> bin_freq ar e j < next_f ?t"
    using assms(2) by simp
  then obtain e' where run: "lfa_for ar sc bg 0 ?t e = Some (1, e', [])"
    and val: "\<forall>j. 0 \<le> j \<and> j \<le> block_size e div 2 \<and> j < length (fftw_freq e) \<longrightarrow>
       fftw_freq e' ! j = gain ar ?t (bin_freq ar e j)"
    using lfa_for_no_scan[of 0 e ar ?t sc bg] by auto
  have sw: "scan_while sc (rate e) (bin_freq ar e 0) (init_locals []) = Some (Inr ?t)"
    using scan_while_flat[OF pos] b0 by simp
  have sw': "scan_while sc (rate e) (bin_freq ar e 0) ?t = Some (Inr ?t)"
    using pos b0 by (simp add: scan_while_exit)
  have "lfa_for ar sc bg 0 (init_locals []) e = lfa_for ar sc bg 0 ?t e"
    using sw sw' by (intro lfa_for_same_scan) simp
  then have "LoadFrequencyAmplification ar sc bg e [] = Some (1, e', [])"
    using run by (simp add: LoadFrequencyAmplification_def)
  moreover have "fftw_freq e' ! i = 1" if "i \<le> block_size e div 2" for i
  proof -
    have "i < length (fftw_freq e)" using that assms(3,4) by simp
    then have "fftw_freq e' ! i = gain ar ?t (bin_freq ar e i)" using val that by simp
    then show ?thesis using gain_flat[OF assms(1), of ?t] by simp
  qed
  ultimately show ?thesis by blast
qed

text \<open>
  Whenever the sampler returns 1, the gain of a bin is computed with locals in which the
  previous frequency lies below the next one.
\<close>

lemma sampled_locals_increasing:
  assumes "LoadFrequencyAmplification ar sc bg e cfg = Some (1, e', out)"
    and "0 \<le> bin_freq ar e 0"
    and "i \<le> block_size e div 2" and "i < length (fftw_freq e)"
  shows "\<exists>t. bin_locals ar sc e (init_locals cfg) 0 i = Some (Inr t) \<and>
    fftw_freq e' ! i = gain ar t (bin_freq ar e i) \<and> prev_f t < next_f t"
proof -
  have run: "lfa_for ar sc bg 0 (init_locals cfg) e = Some (1, e', out)"
    using assms(1) by (simp add: LoadFrequencyAmplification_def)
  from lfa_for_bin[OF run, of i] assms(3,4) obtain t where
    t: "bin_locals ar sc e (init_locals cfg) 0 i = Some (Inr t)"
    "fftw_freq e' ! i = gain ar t (bin_freq ar e i)"
    by auto
  have "next_f (init_locals cfg) \<le> bin_freq ar e 0"
    using assms(2) by (simp add: init_locals_def)
  with bin_locals_gap[OF t(1)] have "prev_f t < next_f t" by blast
  with t show ?thesis by simp
qed

subsection \<open>Concrete runs\<close>

lemmas scan_defs = sscanf_lf_lf_n_def scan_double_def scan_exponent_def scan_fraction_def
  scan_sign_def decimal_def digit_val_def isdigit_def isspace_def

lemmas run_defs = LoadFrequencyAmplification_def lfa_for.simps scan_while.simps
  init_locals_def example_eq_def memset_zero_def bin_freq_def gain_def exact_def
  first_rule_def Let_def

lemma example_eq_ok:
  "0 < rate example_eq" "0 < block_size example_eq" "even (block_size example_eq)"
  "length (fftw_freq example_eq) = block_size example_eq" "plans_ok example_eq"
  "block_size example_eq = 4" "rate example_eq = 48000"
  by (simp_all add: example_eq_def plans_ok_def)

lemma sample_6000:
  "LoadFrequencyAmplification exact sscanf_lf_lf_n False
     (example_eq\<lparr>fftw_freq := memset_zero (block_size example_eq) (fftw_freq example_eq)\<rparr>)
     ''6000 2.0'' = Some (1, example_eq\<lparr>fftw_freq := [2, 2, 2, 0]\<rparr>, [])"
  by (simp add: run_defs scan_defs)





lemma breakpoints_decreasing:
  "breakpoints sscanf_lf_lf_n ''30000 1 20000 2'' = Some [(30000, 1), (20000, 2)]"
  by (simp add: breakpoints.simps scan_defs)

lemma scan_30000: "sscanf_lf_lf_n ''30000 1 20000 2'' = Some (30000, 1, 8)"
  by (simp add: scan_defs)

lemma scan_6000_5000:
  "sscanf_lf_lf_n ''6000 1 5000 2'' = Some (6000, 1, 7)"
  "sscanf_lf_lf_n (drop 7 ''6000 1 5000 2'') = Some (5000, 2, 6)"
  by (simp_all add: scan_defs)

lemma scan_trailing:
  "sscanf_lf_lf_n ''30000 1 x'' = Some (30000, 1, 8)"
  "sscanf_lf_lf_n (drop 8 ''30000 1 x'') = None"
  by (simp_all add: scan_defs)



lemma load_6000:
  "\<exists>out. EqualizerLoad exact sscanf_lf_lf_n False example_eq ''6000 2.0'' =
     Some (1, (synthesize (example_eq\<lparr>fftw_freq := [2, 2, 2, 0]\<rparr>))\<lparr>fftw_freq :=
        divide_loop (block_size (synthesize (example_eq\<lparr>fftw_freq := [2, 2, 2, 0]\<rparr>)))
          (forward (synthesize (example_eq\<lparr>fftw_freq := [2, 2, 2, 0]\<rparr>))
             (fftw_time (synthesize (example_eq\<lparr>fftw_freq := [2, 2, 2, 0]\<rparr>))))\<rparr>, out)"
  using EqualizerLoad_ok[OF sample_6000] .

section \<open>The claims\<close>




text \<open>
  Claim C2, as stated: every configuration text with two breakpoints of which the second
  frequency is at most the first makes \<^verbatim>\<open>EqualizerLoad\<close> return 0. The while loop reads
  a pair only when a bin frequency reaches the frequency read before it, and the highest
  bin frequency is about half the rate: with the rate 48000 and \<open>N = 4\<close> it is 24000, and
  the text \<^verbatim>\<open>30000 1 20000 2\<close> is accepted.
\<close>

theorem C2_counterexample:
  "breakpoints sscanf_lf_lf_n ''30000 1 20000 2'' = Some [(30000, 1), (20000, 2)] \<and>
   retval (EqualizerLoad exact sscanf_lf_lf_n False example_eq ''30000 1 20000 2'') = Some 1"
proof -
  have "\<exists>e' out. EqualizerLoad exact sscanf_lf_lf_n False example_eq ''30000 1 20000 2'' =
      Some (1, e', out)"
    using scan_30000 example_eq_ok
    by (intro load_beyond_half_rate[where sc = sscanf_lf_lf_n and ?f1.0 = 30000
          and ?a1.0 = 1 and ?l1.0 = 8]) simp_all
  then show ?thesis
    using breakpoints_decreasing by (auto simp: retval_def)
qed

text \<open>
  Claim C2, amended: when a configuration text begins with two breakpoints of finite
  frequencies, the second frequency is at most the first, and the frequency that the
  program computes for some bin from 0 to \<open>N/2\<close> reaches the first frequency,
  \<^verbatim>\<open>EqualizerLoad\<close> returns 0 and the time-domain buffer is unchanged. The bin
  frequencies are the rounded values of \<^verbatim>\<open>rate / block_size * i\<close>, where the frequency of
  bin 0 is not negative; that of bin \<open>N/2\<close> need not be half the rate.
\<close>

theorem C2_nonincreasing_rejected:
  assumes "0 \<le> bin_freq ar e 0"
    and "cfg \<noteq> []" and "sc cfg = Some (f1, a1, l1)"
    and "drop l1 cfg \<noteq> []" and "sc (drop l1 cfg) = Some (f2, a2, l2)"
    and "f2 \<le> f1" and "m \<le> block_size e div 2" and "f1 \<le> bin_freq ar e m"
  shows "\<exists>e' out. EqualizerLoad ar sc bg e cfg = Some (0, e', out) \<and> fftw_time e' = fftw_time e"
proof -
  let ?e0 = "e\<lparr>fftw_freq := memset_zero (block_size e) (fftw_freq e)\<rparr>"
  have "\<exists>e1 out1. lfa_for ar sc bg 0 (init_locals cfg) ?e0 = Some (0, e1, out1)"
  proof (cases "0 < f1")
    case False
    then have "scan_while sc (rate ?e0) (bin_freq ar ?e0 0) (init_locals cfg) =
        Some (Inl NonincreasingError)"
      using assms(1,2,3)
      by (intro scan_while_noninc[where nf = f1 and na = a1 and len = l1])
         (simp_all add: init_locals_def)
    then show ?thesis using lfa_for_fail[of 0 ?e0 sc ar "init_locals cfg" _ bg] by simp
  next
    case pos: True
    let ?t = "\<lparr>prev_f = 0, prev_amp = a1, next_f = f1, next_amp = a1, config = drop l1 cfg\<rparr>"
    have "scan_while sc (rate ?e0) (bin_freq ar ?e0 0) (init_locals cfg) =
        scan_while sc (rate ?e0) (bin_freq ar ?e0 0) ?t"
      using assms(1)
      by (intro scan_while_first_pair[where sc = sc and cfg = cfg, OF assms(2,3) pos]) simp
    then have step: "lfa_for ar sc bg 0 (init_locals cfg) ?e0 = lfa_for ar sc bg 0 ?t ?e0"
      by (rule lfa_for_same_scan)
    have "\<exists>e'. lfa_for ar sc bg 0 ?t ?e0 = Some (0, e', Message bg NonincreasingError)"
      using assms(4,5,6,7,8)
      by (intro lfa_for_pending_noninc[where m = m and ?f2.0 = f2
            and ?a2.0 = a2 and ?l2.0 = l2]) simp_all
    then show ?thesis using step by auto
  qed
  then obtain e1 out1 where run: "lfa_for ar sc bg 0 (init_locals cfg) ?e0 = Some (0, e1, out1)"
    by blast
  then have "EqualizerLoad ar sc bg e cfg = Some (0, e1, Message bg (Reloading cfg) @ out1)"
    by (intro EqualizerLoad_fail) (simp add: LoadFrequencyAmplification_def)
  moreover have "fftw_time e1 = fftw_time e"
    using lfa_for_fields(3)[OF run] by simp
  ultimately show ?thesis by blast
qed

theorem C2_witness:
  "0 \<le> bin_freq exact example_eq 0 \<and>
   sscanf_lf_lf_n ''6000 1 5000 2'' = Some (6000, 1, 7) \<and>
   sscanf_lf_lf_n (drop 7 ''6000 1 5000 2'') = Some (5000, 2, 6) \<and>
   6000 \<le> bin_freq exact example_eq 1 \<and>
   (\<exists>e' out. EqualizerLoad exact sscanf_lf_lf_n False example_eq ''6000 1 5000 2'' = Some (0, e', out) \<and>
      fftw_time e' = fftw_time example_eq)"
proof -
  have zero: "0 \<le> bin_freq exact example_eq 0"
    by (simp add: bin_freq_exact)
  have reach: "6000 \<le> bin_freq exact example_eq 1"
    by (simp add: bin_freq_exact example_eq_def)
  have "\<exists>e' out. EqualizerLoad exact sscanf_lf_lf_n False example_eq ''6000 1 5000 2'' =
      Some (0, e', out) \<and> fftw_time e' = fftw_time example_eq"
    using scan_6000_5000 reach zero
    by (intro C2_nonincreasing_rejected[where ?f1.0 = 6000 and ?a1.0 = 1 and ?l1.0 = 7
          and ?f2.0 = 5000 and ?a2.0 = 2 and ?l2.0 = 6 and m = 1])
       (simp_all add: example_eq_def)
  then show ?thesis using scan_6000_5000 reach zero by simp
qed




text \<open>
  Claim C4: after the window and the reindexing of a successful reload with an even filter
  length \<open>N\<close>, sample 0 of the time-domain buffer is 0; for every \<open>i < N/2\<close> the sample at
  \<open>N/2 + i\<close> is the output of the inverse transform at \<open>i\<close> times
  \<open>(0.5 + 0.5 cos (\<pi> i / (N/2))) / N\<close>; and for every \<open>i\<close> from 1 to \<open>N/2 - 1\<close> the
  samples at \<open>i\<close> and at \<open>N - i\<close> are equal. This buffer is the one that the reload
  returns.
\<close>

theorem C4_window_and_reindex:
  assumes "EqualizerLoad ar sc bg e cfg = Some (1, e', out)"
    and "0 < block_size e" and "even (block_size e)"
    and "length (fftw_freq e) = block_size e" and "plans_ok e"
  shows "\<exists>e1 out1 raw t.
    LoadFrequencyAmplification ar sc bg
      (e\<lparr>fftw_freq := memset_zero (block_size e) (fftw_freq e)\<rparr>) cfg = Some (1, e1, out1) \<and>
    raw = snd (inverse e1 (fftw_freq e1)) \<and>
    t = fftw_time (synthesize e1) \<and> fftw_time e' = t \<and>
    t ! 0 = 0 \<and>
    (\<forall>i<block_size e div 2.
       t ! (block_size e div 2 + i) =
       raw ! i * ((0.5 + 0.5 * cos (pi * real i / (real (block_size e) / 2))) / real (block_size e))) \<and>
    (\<forall>i. 1 \<le> i \<and> i < block_size e div 2 \<longrightarrow> t ! i = t ! (block_size e - i))"
  using assms(1)
proof (cases rule: EqualizerLoad_cases)
  case (fail out1)
  then show ?thesis by simp
next
  case (ok e1 out1)
  let ?N = "block_size e"
  let ?e0 = "e\<lparr>fftw_freq := memset_zero ?N (fftw_freq e)\<rparr>"
  have run: "lfa_for ar sc bg 0 (init_locals cfg) ?e0 = Some (1, e1, out1)"
    using ok(2) by (simp add: LoadFrequencyAmplification_def)
  note f = lfa_for_fields[OF run]
  let ?raw = "snd (inverse e1 (fftw_freq e1))"
  have "length (fftw_freq e1) = ?N"
    using f(6) assms(4) by (simp add: memset_zero_full)
  then have lraw: "length ?raw = ?N"
    using assms(5) f(5) by (simp add: plans_ok_def)
  have t: "fftw_time (synthesize e1) = window_and_reindex ?N ?raw"
    using f(2) by simp
  have half: "real (?N div 2) = real ?N / 2"
    using assms(3) by (simp add: real_of_nat_div)
  note p = window_and_reindex_props[OF assms(2,3) lraw]
  have "fftw_time e' = fftw_time (synthesize e1)" using ok(3) by simp
  moreover have "fftw_time (synthesize e1) ! 0 = 0" using p(1) t by simp
  moreover have "fftw_time (synthesize e1) ! (?N div 2 + i) =
      ?raw ! i * ((0.5 + 0.5 * cos (pi * real i / (real ?N / 2))) / real ?N)"
    if "i < ?N div 2" for i
  proof -
    have "pi * (real i / real (?N div 2)) = pi * real i / (real ?N / 2)"
      unfolding half by (simp add: mult.assoc)
    then have "GetWindow (real i / real (?N div 2)) = 0.5 + 0.5 * cos (pi * real i / (real ?N / 2))"
      unfolding GetWindow_def by (rule arg_cong)
    with p(2)[OF that] t show ?thesis by simp
  qed
  moreover have "fftw_time (synthesize e1) ! i = fftw_time (synthesize e1) ! (?N - i)"
    if "1 \<le> i \<and> i < ?N div 2" for i
    using p(3)[of i] that t by simp
  ultimately show ?thesis using ok(2) by blast
qed

theorem C4_witness:
  "\<exists>e' out. EqualizerLoad exact sscanf_lf_lf_n False example_eq ''6000 2.0'' = Some (1, e', out) \<and>
     fftw_time e' ! 0 = 0 \<and>
     fftw_time e' ! (2 + 1) =
       snd (inverse example_eq [2, 2, 2, 0]) ! 1 * ((0.5 + 0.5 * cos (pi * real 1 / (real 4 / 2))) / real 4) \<and>
     fftw_time e' ! 1 = fftw_time e' ! (4 - 1)"
proof -
  from load_6000 obtain e' out where
    run: "EqualizerLoad exact sscanf_lf_lf_n False example_eq ''6000 2.0'' = Some (1, e', out)"
    by blast
  from C4_window_and_reindex[OF run example_eq_ok(2,3,4,5)] sample_6000
  obtain t where t: "fftw_time e' = t" "t ! 0 = 0"
    "\<forall>i<block_size example_eq div 2.
       t ! (block_size example_eq div 2 + i) =
       snd (inverse (example_eq\<lparr>fftw_freq := [2, 2, 2, 0]\<rparr>)
              (fftw_freq (example_eq\<lparr>fftw_freq := [2, 2, 2, 0]\<rparr>))) ! i *
       ((0.5 + 0.5 * cos (pi * real i / (real (block_size example_eq) / 2))) /
        real (block_size example_eq))"
    "\<forall>i. 1 \<le> i \<and> i < block_size example_eq div 2 \<longrightarrow> t ! i = t ! (block_size example_eq - i)"
    by auto
  have "t ! (2 + 1) =
      snd (inverse example_eq [2, 2, 2, 0]) ! 1 * ((0.5 + 0.5 * cos (pi * real 1 / (real 4 / 2))) / real 4)"
    using t(3)[rule_format, of 1] by (simp add: example_eq_def)
  moreover have "t ! 1 = t ! (4 - 1)"
    using t(4)[rule_format, of 1] by (simp add: example_eq_def)
  ultimately show ?thesis using run t(1,2) by blast
qed

text \<open>
  Claim C5: when the sampler has succeeded on the cleared frequency buffer, the slots
  \<open>N/2 + 1\<close> to \<open>N - 1\<close> of the buffer are zero, and the output of the inverse real
  transform of that buffer, before the window, has equal values at \<open>i\<close> and at \<open>N - i\<close>
  for every \<open>i\<close> from 1 to \<open>N/2 - 1\<close>. The transform is \<open>hc2r\<close>, modelled from the spec.
\<close>

theorem C5_inverse_symmetric:
  assumes "LoadFrequencyAmplification ar sc bg
      (e\<lparr>fftw_freq := memset_zero (block_size e) (fftw_freq e)\<rparr>) cfg = Some (1, e1, out1)"
    and "even (block_size e)" and "length (fftw_freq e) = block_size e"
    and "1 \<le> i" and "i < block_size e div 2"
  shows "(\<forall>j. block_size e div 2 < j \<and> j < block_size e \<longrightarrow> fftw_freq e1 ! j = 0) \<and>
    hc2r (block_size e) (fftw_freq e1) ! i =
    hc2r (block_size e) (fftw_freq e1) ! (block_size e - i)"
proof -
  let ?N = "block_size e"
  let ?e0 = "e\<lparr>fftw_freq := memset_zero ?N (fftw_freq e)\<rparr>"
  have run: "lfa_for ar sc bg 0 (init_locals cfg) ?e0 = Some (1, e1, out1)"
    using assms(1) by (simp add: LoadFrequencyAmplification_def)
  have "\<forall>j>block_size ?e0 div 2. fftw_freq e1 ! j = fftw_freq ?e0 ! j"
    using lfa_for_frame[OF run] by blast
  then have zero: "\<forall>j. ?N div 2 < j \<and> j < ?N \<longrightarrow> fftw_freq e1 ! j = 0"
    using assms(3) by (simp add: memset_zero_full)
  have "0 < i" "i < ?N" using assms(4,5) by linarith+
  from hc2r_symmetric[OF assms(2) zero this] zero show ?thesis by blast
qed

theorem C5_witness:
  "LoadFrequencyAmplification exact sscanf_lf_lf_n False
     (example_eq\<lparr>fftw_freq := memset_zero (block_size example_eq) (fftw_freq example_eq)\<rparr>)
     ''6000 2.0'' = Some (1, example_eq\<lparr>fftw_freq := [2, 2, 2, 0]\<rparr>, []) \<and>
   hc2r 4 [2, 2, 2, 0] ! 1 = hc2r 4 [2, 2, 2, 0] ! (4 - 1)"
  using C5_inverse_symmetric[OF sample_6000 example_eq_ok(3,4), of 1] sample_6000
  by (simp add: example_eq_def)

text \<open>
  Claim C6: on every successful reload the steps that follow the window and the reindexing
  (the forward transform, the division by \<open>N\<close> and the debug output) leave the
  time-domain buffer as \<open>synthesize\<close> produced it; the Equalizer that is returned differs
  from that one in the frequency-domain buffer only.
\<close>

theorem C6_reporting_leaves_filter:
  assumes "EqualizerLoad ar sc bg e cfg = Some (1, e', out)"
  shows "\<exists>e1 out1.
     LoadFrequencyAmplification ar sc bg
       (e\<lparr>fftw_freq := memset_zero (block_size e) (fftw_freq e)\<rparr>) cfg = Some (1, e1, out1) \<and>
     e' = (synthesize e1)\<lparr>fftw_freq := fftw_freq e'\<rparr> \<and>
     fftw_time e' = fftw_time (synthesize e1)"
  using assms
proof (cases rule: EqualizerLoad_cases)
  case (fail out1)
  then show ?thesis by simp
next
  case (ok e1 out1)
  then show ?thesis by auto
qed

theorem C6_witness:
  "\<exists>e' out. EqualizerLoad exact sscanf_lf_lf_n False example_eq ''6000 2.0'' = Some (1, e', out) \<and>
     fftw_time e' = fftw_time (synthesize (example_eq\<lparr>fftw_freq := [2, 2, 2, 0]\<rparr>))"
proof -
  from load_6000 obtain e' out where
    run: "EqualizerLoad exact sscanf_lf_lf_n False example_eq ''6000 2.0'' = Some (1, e', out)"
    by blast
  from C6_reporting_leaves_filter[OF run] sample_6000 run show ?thesis
    by auto
qed



text \<open>
  Claim C8: on the empty configuration text the sampler returns 1 and stores the gain 1
  at every bin from 0 to \<open>N/2\<close>. The program does so for a positive rate (lemma
  \<open>flat_unity\<close>). \<^verbatim>\<open>main\<close> rejects a block size and a channel count of zero but takes any
  rate; with the rate 0 the loop \<^verbatim>\<open>while (f >= next_f)\<close> of bin 0 never ends on the empty
  text, with which \<^verbatim>\<open>main\<close> loads the Equalizer first: neither the sampler nor the reload
  returns.
\<close>

theorem C8_rate_zero_hangs:
  "LoadFrequencyAmplification exact sscanf_lf_lf_n False (example_eq\<lparr>rate := 0\<rparr>) [] = None \<and>
   EqualizerLoad exact sscanf_lf_lf_n False (example_eq\<lparr>rate := 0\<rparr>) [] = None"
proof -
  have "LoadFrequencyAmplification exact sscanf_lf_lf_n False (example_eq\<lparr>rate := 0\<rparr>) [] = None"
    by (rule flat_diverges) (simp_all add: bin_freq_def exact_def)
  moreover have "LoadFrequencyAmplification exact sscanf_lf_lf_n False
      ((example_eq\<lparr>rate := 0\<rparr>)\<lparr>fftw_freq :=
         memset_zero (block_size (example_eq\<lparr>rate := 0\<rparr>)) (fftw_freq (example_eq\<lparr>rate := 0\<rparr>))\<rparr>) []
      = None"
    by (rule flat_diverges) (simp_all add: bin_freq_def exact_def)
  ultimately show ?thesis
    by (simp add: EqualizerLoad_def Let_def)
qed

text \<open>
  Claim C10: the parser reads a pair only when a bin frequency reaches the frequency read
  before it, so there are configuration texts whose first pair lies above every bin
  frequency and whose rest is malformed or not increasing, and which the reload accepts
  all the same. With the rate 48000 and \<open>N = 4\<close> the highest bin frequency is 24000; the
  texts \<^verbatim>\<open>30000 1 x\<close>, whose rest \<^verbatim>\<open>x\<close> cannot be scanned, and \<^verbatim>\<open>30000 1 20000 2\<close>, whose
  second frequency is below the first, both make \<^verbatim>\<open>EqualizerLoad\<close> return 1.
\<close>

theorem C10_trailing_text_unread:
  "bin_freq exact example_eq (block_size example_eq div 2) = 24000 \<and>
   sscanf_lf_lf_n ''30000 1 x'' = Some (30000, 1, 8) \<and>
   sscanf_lf_lf_n (drop 8 ''30000 1 x'') = None \<and>
   retval (EqualizerLoad exact sscanf_lf_lf_n False example_eq ''30000 1 x'') = Some 1 \<and>
   breakpoints sscanf_lf_lf_n ''30000 1 20000 2'' = Some [(30000, 1), (20000, 2)] \<and>
   retval (EqualizerLoad exact sscanf_lf_lf_n False example_eq ''30000 1 20000 2'') = Some 1"
proof -
  have half: "rate example_eq / 2 < 30000" by (simp add: example_eq_def)
  have "\<exists>e' out. EqualizerLoad exact sscanf_lf_lf_n False example_eq ''30000 1 x'' =
      Some (1, e', out)"
    using scan_trailing(1) example_eq_ok(1,2) half
    by (intro load_beyond_half_rate[where sc = sscanf_lf_lf_n and ?f1.0 = 30000
          and ?a1.0 = 1 and ?l1.0 = 8]) simp_all
  moreover have "\<exists>e' out.
      EqualizerLoad exact sscanf_lf_lf_n False example_eq ''30000 1 20000 2'' = Some (1, e', out)"
    using scan_30000 example_eq_ok(1,2) half
    by (intro load_beyond_half_rate[where sc = sscanf_lf_lf_n and ?f1.0 = 30000
          and ?a1.0 = 1 and ?l1.0 = 8]) simp_all
  moreover have "bin_freq exact example_eq (block_size example_eq div 2) = 24000"
    by (simp add: bin_freq_exact example_eq_def)
  ultimately show ?thesis
    using scan_trailing breakpoints_decreasing by (auto simp: retval_def)
qed

end
